theory Spec2Isabelle
  imports Complex_Main "HOL-Library.Word" "HOL-Library.Char_ord" "HOL-Library.List_Lexorder"
begin

section \<open>Value model (json.hpp, lines 14-49)\<close>

text \<open>
  \<^verbatim>\<open>Value\<close> is a \<^verbatim>\<open>std::variant\<close> over seven alternatives and \<^verbatim>\<open>Node\<close> a struct with the
  single field \<^verbatim>\<open>value\<close>; both are one datatype here.
  \<^item> \<^verbatim>\<open>Integer = int64_t\<close> is a 64-bit word, read as signed with \<open>sint\<close>.
  \<^item> \<^verbatim>\<open>Float = double\<close> is an IEEE 754 binary64 value: finite, with its sign (\<open>True\<close> for
    minus, so that there are two zeros) and its magnitude, a rational number that binary64
    represents; or an infinity or a NaN, each with its sign.
  \<^item> \<^verbatim>\<open>Object = std::map<std::string, Node>\<close> is an association list kept in strictly
    ascending key order, the order in which the map iterates. Keys compare as
    \<^verbatim>\<open>std::string\<close> does: lexicographically, byte by byte, bytes read as unsigned.
\<close>

datatype double =
    Finite bool rat
  | Infinite bool
  | NaN bool

datatype Node =
    Null
  | Boolean bool
  | Integer "64 word"
  | Float double
  | String string
  | Array "Node list"
  | Object "(string \<times> Node) list"

datatype JsonError =
    parse_expect_value
  | parse_invalid_value
  | parse_root_not_singular
  | parse_number_too_big

text \<open>The C++ exceptions that the code throws or that its library calls throw.\<close>

datatype cpp_exception =
    invalid_argument
  | out_of_range
  | runtime_error string

text \<open>
  What a call of a parsing member function does: it returns a \<^verbatim>\<open>std::expected\<close> holding a
  value (\<open>Returns\<close>, together with the cursor \<^verbatim>\<open>pos\<close> it leaves behind for the productions)
  or an error code (\<open>Unexpected\<close>), or it is left by an exception (\<open>Throws\<close>).
  After an error or an exception no caller reads \<^verbatim>\<open>pos\<close> again, so it is not kept there.
\<close>

datatype 'a outcome =
    Returns 'a
  | Unexpected JsonError
  | Throws cpp_exception

subsection \<open>\<^verbatim>\<open>std::map\<close> operations used by the code\<close>

text \<open>
  \<^verbatim>\<open>std::map::emplace\<close>: inserts the pair at its place in key order when the key is absent,
  and leaves the map as it is when the key is already present.
\<close>

fun emplace :: "string \<Rightarrow> Node \<Rightarrow> (string \<times> Node) list \<Rightarrow> (string \<times> Node) list" where
  "emplace k v [] = [(k, v)]"
| "emplace k v ((k', v') # m) =
     (if k < k' then (k, v) # (k', v') # m
      else if k = k' then (k', v') # m
      else (k', v') # emplace k v m)"

text \<open>An object built by inserting the pairs of \<open>kvs\<close> one after the other, from the left.\<close>

definition object_of :: "(string \<times> Node) list \<Rightarrow> (string \<times> Node) list" where
  "object_of kvs = foldl (\<lambda>m (k, v). emplace k v m) [] kvs"

text \<open>The invariant of \<^verbatim>\<open>std::map\<close>: keys strictly ascending, at every depth of a tree.\<close>

fun wf_node :: "Node \<Rightarrow> bool" where
  "wf_node (Array xs) = list_all wf_node xs"
| "wf_node (Object m) = (sorted_wrt (<) (map fst m) \<and> list_all (\<lambda>kv. wf_node (snd kv)) m)"
| "wf_node _ = True"

subsection \<open>\<^verbatim>\<open>Node::operator[]\<close> (lines 30-41)\<close>

text \<open>
  \<^verbatim>\<open>std::map::at\<close> and \<^verbatim>\<open>std::vector::at\<close> throw \<^verbatim>\<open>std::out_of_range\<close> for an absent key and
  for an index that is not below the size.
\<close>

definition at_key :: "Node \<Rightarrow> string \<Rightarrow> cpp_exception + Node" where
  "at_key node key =
     (case node of
        Object object \<Rightarrow>
          (case map_of object key of Some child \<Rightarrow> Inr child | None \<Rightarrow> Inl out_of_range)
      | _ \<Rightarrow> Inl (runtime_error ''not an object''))"

definition at_index :: "Node \<Rightarrow> nat \<Rightarrow> cpp_exception + Node" where
  "at_index node index =
     (case node of
        Array array \<Rightarrow> (if index < length array then Inr (array ! index) else Inl out_of_range)
      | _ \<Rightarrow> Inl (runtime_error ''not an array''))"

section \<open>Library functions the parser calls\<close>

text \<open>\<^verbatim>\<open>std::isspace\<close>, \<^verbatim>\<open>std::isdigit\<close> in the "C" locale, and the hexadecimal digits of \<^verbatim>\<open>strtol\<close>.\<close>

definition isspace :: "char \<Rightarrow> bool" where
  "isspace c \<longleftrightarrow> c = CHR '' '' \<or> (9 \<le> (of_char c :: nat) \<and> (of_char c :: nat) \<le> 13)"

definition isdigit :: "char \<Rightarrow> bool" where
  "isdigit c \<longleftrightarrow> 48 \<le> (of_char c :: nat) \<and> (of_char c :: nat) \<le> 57"

definition digit_val :: "char \<Rightarrow> nat" where
  "digit_val c = of_char c - 48"

definition isxdigit :: "char \<Rightarrow> bool" where
  "isxdigit c \<longleftrightarrow> isdigit c
     \<or> (97 \<le> (of_char c :: nat) \<and> (of_char c :: nat) \<le> 102)
     \<or> (65 \<le> (of_char c :: nat) \<and> (of_char c :: nat) \<le> 70)"

definition xdigit_val :: "char \<Rightarrow> nat" where
  "xdigit_val c =
     (if isdigit c then of_char c - 48
      else if 97 \<le> (of_char c :: nat) then of_char c - 87
      else of_char c - 55)"

definition dec_value :: "string \<Rightarrow> nat" where
  "dec_value ds = foldl (\<lambda>a c. 10 * a + digit_val c) 0 ds"

definition hex_value :: "string \<Rightarrow> nat" where
  "hex_value ds = foldl (\<lambda>a c. 16 * a + xdigit_val c) 0 ds"

text \<open>\<^verbatim>\<open>std::string_view::substr(pos, n)\<close>, for \<open>pos \<le> size\<close> (every call site has it).\<close>

definition substr :: "string \<Rightarrow> nat \<Rightarrow> nat \<Rightarrow> string" where
  "substr s pos n = take n (drop pos s)"

text \<open>An optional sign in front of a number, as \<^verbatim>\<open>strtol\<close> and \<^verbatim>\<open>strtod\<close> read it.\<close>

definition is_sign :: "char \<Rightarrow> bool" where
  "is_sign c \<longleftrightarrow> c = CHR ''-'' \<or> c = CHR ''+''"

definition strip_sign :: "string \<Rightarrow> bool \<times> string" where
  "strip_sign t =
     (case t of
        [] \<Rightarrow> (False, [])
      | c # u \<Rightarrow> if is_sign c then (c = CHR ''-'', u) else (False, t))"

text \<open>
  \<^verbatim>\<open>std::stoll(str)\<close>: \<^verbatim>\<open>strtoll\<close> in base 10 skips white space, reads an optional sign and the
  longest run of digits. No digit: \<^verbatim>\<open>std::invalid_argument\<close>. A value outside
  \<^verbatim>\<open>long long\<close>: \<^verbatim>\<open>std::out_of_range\<close>.
\<close>

definition stoll :: "string \<Rightarrow> cpp_exception + 64 word" where
  "stoll str =
     (let (neg, u) = strip_sign (dropWhile isspace str);
          ds = takeWhile isdigit u;
          n = (if neg then - int (dec_value ds) else int (dec_value ds))
      in if ds = [] then Inl invalid_argument
         else if n < - (2 ^ 63) \<or> 2 ^ 63 \<le> n then Inl out_of_range
         else Inr (word_of_int n))"

text \<open>
  \<^verbatim>\<open>std::stoi(str, nullptr, 16)\<close>: \<^verbatim>\<open>strtol\<close> in base 16 skips white space, reads an optional
  sign, an optional \<^verbatim>\<open>0x\<close> or \<^verbatim>\<open>0X\<close> (only when a hexadecimal digit follows it) and the longest
  run of hexadecimal digits. No digit: \<^verbatim>\<open>std::invalid_argument\<close>. A value outside \<^verbatim>\<open>int\<close>:
  \<^verbatim>\<open>std::out_of_range\<close>.
\<close>

definition strip_0x :: "string \<Rightarrow> string" where
  "strip_0x u =
     (case u of
        c0 # c1 # c2 # w \<Rightarrow>
          if c0 = CHR ''0'' \<and> (c1 = CHR ''x'' \<or> c1 = CHR ''X'') \<and> isxdigit c2 then c2 # w else u
      | _ \<Rightarrow> u)"

definition stoi16 :: "string \<Rightarrow> cpp_exception + int" where
  "stoi16 str =
     (let (neg, u) = strip_sign (dropWhile isspace str);
          ds = takeWhile isxdigit (strip_0x u);
          n = (if neg then - int (hex_value ds) else int (hex_value ds))
      in if ds = [] then Inl invalid_argument
         else if n < - (2 ^ 31) \<or> 2 ^ 31 \<le> n then Inl out_of_range
         else Inr n)"

text \<open>
  Rounding to binary64, for \<^verbatim>\<open>strtod\<close>. \<open>bit_length n\<close> is the number of binary digits of \<open>n > 0\<close>;
  \<open>binade num den\<close> is the exponent \<open>b\<close> with \<open>2^b \<le> num / den < 2^(b+1)\<close>; \<open>pow2 k\<close> is \<open>2^k\<close>
  for an integer \<open>k\<close>; \<open>round_even\<close> rounds to the nearest whole number, ties to even; and
  \<open>round_binary64 num den\<close> is the double nearest to \<open>num / den\<close>: a multiple of \<open>2^(b-52)\<close>, or
  of \<open>2^-1074\<close> in the subnormal range.
\<close>

function bit_length :: "int \<Rightarrow> int" where
  "bit_length n = (if n \<le> 0 then 0 else 1 + bit_length (n div 2))"
  by pat_completeness auto
termination
  by (relation "measure nat") auto

declare bit_length.simps [simp del]

definition binade :: "int \<Rightarrow> int \<Rightarrow> int" where
  "binade num den =
     (let d = bit_length num - bit_length den
      in if (if 0 \<le> d then den * 2 ^ nat d \<le> num else den \<le> num * 2 ^ nat (- d)) then d
         else d - 1)"

definition pow2 :: "int \<Rightarrow> rat" where
  "pow2 k = (if 0 \<le> k then 2 ^ nat k else 1 / 2 ^ nat (- k))"

definition round_even :: "rat \<Rightarrow> int" where
  "round_even y =
     (let n = \<lfloor>y\<rfloor>; r = y - of_int n
      in if 1 / 2 < r \<or> (r = 1 / 2 \<and> odd n) then n + 1 else n)"

definition round_binary64 :: "int \<Rightarrow> int \<Rightarrow> rat" where
  "round_binary64 num den =
     (if num = 0 then 0
      else
        (let k = max (binade num den - 52) (- 1074)
         in of_int (round_even (of_int num / (of_int den * pow2 k))) * pow2 k))"

text \<open>
  \<^verbatim>\<open>std::stod(str)\<close> on decimal notation: \<^verbatim>\<open>strtod\<close> skips white space, reads an optional sign,
  digits, an optional point and digits, and an exponent (\<^verbatim>\<open>e\<close> or \<^verbatim>\<open>E\<close>, optional sign, digits)
  that counts only when it has a digit. No digit in the mantissa: \<^verbatim>\<open>std::invalid_argument\<close>.
  The mantissa is \<open>m\<close>, the decimal exponent \<open>e\<close>, the value \<open>m * 10^e\<close>; the result is the
  double nearest to it, with the sign read (so \<^verbatim>\<open>-0.0\<close> is the negative zero).
  \<^verbatim>\<open>strtod\<close> sets \<^verbatim>\<open>ERANGE\<close>, and \<^verbatim>\<open>stod\<close> throws \<^verbatim>\<open>std::out_of_range\<close>,
  \<^item> when the value overflows: it would round to infinity, its magnitude is at least
    \<open>2^1024 - 2^970\<close>;
  \<^item> when it underflows, as glibc decides it: the value is not zero, it is tiny after
    rounding (rounded to 53 bits with no bound on the exponent it is still below the least
    normal double \<open>2^-1022\<close>, which is the case below \<open>2^-1022 - 2^-1076\<close>), and the result
    is inexact (the value is not a multiple of \<open>2^-1074\<close>).
  Hexadecimal floats, \<^verbatim>\<open>inf\<close> and \<^verbatim>\<open>nan\<close> are not read: a lexeme of \<^verbatim>\<open>parse_number\<close> never has
  their form.
\<close>

definition dbl_overflow :: "nat \<Rightarrow> int \<Rightarrow> bool" where
  "dbl_overflow m e \<longleftrightarrow>
     (if 0 \<le> e then 2 ^ 1024 - 2 ^ 970 \<le> int m * 10 ^ nat e
      else (2 ^ 1024 - 2 ^ 970) * 10 ^ nat (- e) \<le> int m)"

definition dbl_underflow :: "nat \<Rightarrow> int \<Rightarrow> bool" where
  "dbl_underflow m e \<longleftrightarrow>
     e < 0 \<and> m \<noteq> 0 \<and> int m * 2 ^ 1076 < (2 ^ 54 - 1) * 10 ^ nat (- e)
       \<and> \<not> (10 ^ nat (- e) :: int) dvd int m * 2 ^ 1074"

definition stod_value :: "nat \<Rightarrow> int \<Rightarrow> rat" where
  "stod_value m e =
     (if 0 \<le> e then round_binary64 (int m * 10 ^ nat e) 1
      else round_binary64 (int m) (10 ^ nat (- e)))"

definition stod_exponent :: "string \<Rightarrow> int" where
  "stod_exponent r =
     (case r of
        [] \<Rightarrow> 0
      | c # r' \<Rightarrow>
          if c = CHR ''e'' \<or> c = CHR ''E'' then
            (let (eneg, r'') = strip_sign r'; es = takeWhile isdigit r''
             in if es = [] then 0
                else if eneg then - int (dec_value es) else int (dec_value es))
          else 0)"

definition stod :: "string \<Rightarrow> cpp_exception + double" where
  "stod str =
     (let (neg, u) = strip_sign (dropWhile isspace str);
          ip = takeWhile isdigit u;
          r = dropWhile isdigit u;
          fp = (case r of [] \<Rightarrow> [] | c # r' \<Rightarrow> if c = CHR ''.'' then takeWhile isdigit r' else []);
          r1 = (case r of [] \<Rightarrow> [] | c # r' \<Rightarrow> if c = CHR ''.'' then dropWhile isdigit r' else r);
          m = dec_value (ip @ fp);
          e = stod_exponent r1 - int (length fp)
      in if ip @ fp = [] then Inl invalid_argument
         else if dbl_overflow m e \<or> dbl_underflow m e then Inl out_of_range
         else Inr (Finite neg (stod_value m e)))"

section \<open>The parser (class JsonParser, lines 51-302)\<close>

text \<open>
  The parser object is the immutable text \<^verbatim>\<open>json_str\<close> and the cursor \<^verbatim>\<open>pos\<close>. Every member
  function takes both and gives the new cursor back. \<^verbatim>\<open>json_str[pos]\<close> is \<open>s ! pos\<close>, read only
  under a guard \<open>pos < length s\<close>, as in the source.
\<close>

function parse_whitespace :: "string \<Rightarrow> nat \<Rightarrow> nat" where
  "parse_whitespace s pos =
     (if pos < length s \<and> isspace (s ! pos) then parse_whitespace s (Suc pos) else pos)"
  by pat_completeness auto
termination
  by (relation "measure (\<lambda>(s, pos). length s - pos)") auto

declare parse_whitespace.simps [simp del]

definition parse_null :: "string \<Rightarrow> nat \<Rightarrow> (Node \<times> nat) outcome" where
  "parse_null s pos0 =
     (let pos = parse_whitespace s pos0
      in if substr s pos 4 = ''null'' then Returns (Null, pos + 4)
         else Unexpected parse_invalid_value)"

definition parse_true :: "string \<Rightarrow> nat \<Rightarrow> (Node \<times> nat) outcome" where
  "parse_true s pos0 =
     (let pos = parse_whitespace s pos0
      in if substr s pos 4 = ''true'' then Returns (Boolean True, pos + 4)
         else Unexpected parse_invalid_value)"

definition parse_false :: "string \<Rightarrow> nat \<Rightarrow> (Node \<times> nat) outcome" where
  "parse_false s pos0 =
     (let pos = parse_whitespace s pos0
      in if substr s pos 5 = ''false'' then Returns (Boolean False, pos + 5)
         else Unexpected parse_invalid_value)"

text \<open>The loop \<^verbatim>\<open>while (end_pos < json_str.size() && std::isdigit(json_str[end_pos])) ++end_pos;\<close>\<close>

function scan_digits :: "string \<Rightarrow> nat \<Rightarrow> nat" where
  "scan_digits s end_pos =
     (if end_pos < length s \<and> isdigit (s ! end_pos) then scan_digits s (Suc end_pos)
      else end_pos)"
  by pat_completeness auto
termination
  by (relation "measure (\<lambda>(s, end_pos). length s - end_pos)") auto

declare scan_digits.simps [simp del]

text \<open>The two \<^verbatim>\<open>try\<close> blocks of \<^verbatim>\<open>parse_number\<close>: both catch the same two exceptions.\<close>

definition catch_conversion :: "cpp_exception + Node \<Rightarrow> nat \<Rightarrow> (Node \<times> nat) outcome" where
  "catch_conversion r end_pos =
     (case r of
        Inr number \<Rightarrow> Returns (number, end_pos)
      | Inl out_of_range \<Rightarrow> Unexpected parse_number_too_big
      | Inl invalid_argument \<Rightarrow> Unexpected parse_invalid_value
      | Inl x \<Rightarrow> Throws x)"

text \<open>The integer part: an optional minus, then a single 0 or a run of digits (lines 94-110).\<close>

definition scan_integer_part :: "string \<Rightarrow> nat \<Rightarrow> nat option" where
  "scan_integer_part s pos =
     (let end_pos = (if s ! pos = CHR ''-'' then pos + 1 else pos)
      in if end_pos = length s then None
         else if s ! end_pos = CHR ''0'' then Some (end_pos + 1)
         else if \<not> isdigit (s ! end_pos) then None
         else Some (scan_digits s end_pos))"

text \<open>The fraction (lines 126-134) and the exponent (lines 135-145).\<close>

definition scan_fraction :: "string \<Rightarrow> nat \<Rightarrow> nat option" where
  "scan_fraction s end_pos =
     (if end_pos < length s \<and> s ! end_pos = CHR ''.'' then
        (if end_pos + 1 = length s \<or> \<not> isdigit (s ! (end_pos + 1)) then None
         else Some (scan_digits s (end_pos + 1)))
      else Some end_pos)"

definition scan_exponent :: "string \<Rightarrow> nat \<Rightarrow> nat option" where
  "scan_exponent s end_pos =
     (if end_pos < length s \<and> (s ! end_pos = CHR ''e'' \<or> s ! end_pos = CHR ''E'') then
        (if end_pos + 1 = length s
            \<or> (s ! (end_pos + 1) \<noteq> CHR ''+'' \<and> s ! (end_pos + 1) \<noteq> CHR ''-''
                \<and> \<not> isdigit (s ! (end_pos + 1)))
         then None
         else Some (scan_digits s (end_pos + 2)))
      else Some end_pos)"

definition is_integer_lexeme_end :: "string \<Rightarrow> nat \<Rightarrow> bool" where
  "is_integer_lexeme_end s end_pos \<longleftrightarrow>
     end_pos = length s
     \<or> (s ! end_pos \<noteq> CHR ''.'' \<and> s ! end_pos \<noteq> CHR ''e'' \<and> s ! end_pos \<noteq> CHR ''E'')"

definition parse_number :: "string \<Rightarrow> nat \<Rightarrow> (Node \<times> nat) outcome" where
  "parse_number s pos0 =
     (let pos = parse_whitespace s pos0
      in if pos = length s then Unexpected parse_invalid_value
         else
           (case scan_integer_part s pos of
              None \<Rightarrow> Unexpected parse_invalid_value
            | Some end_pos \<Rightarrow>
                if is_integer_lexeme_end s end_pos then
                  catch_conversion (map_sum id Integer (stoll (substr s pos (end_pos - pos))))
                    end_pos
                else
                  (case scan_fraction s end_pos of
                     None \<Rightarrow> Unexpected parse_invalid_value
                   | Some end_pos1 \<Rightarrow>
                       (case scan_exponent s end_pos1 of
                          None \<Rightarrow> Unexpected parse_invalid_value
                        | Some end_pos2 \<Rightarrow>
                            catch_conversion
                              (map_sum id Float (stod (substr s pos (end_pos2 - pos))))
                              end_pos2))))"

text \<open>
  The table \<^verbatim>\<open>escape_mappping\<close> of \<^verbatim>\<open>parse_string\<close>: the character after a backslash and
  what it stands for (quote, backslash, slash, backspace, form feed, newline, carriage
  return, tab).
\<close>

definition escape_mappping :: "char \<Rightarrow> char option" where
  "escape_mappping =
     map_of [(CHR 0x22, CHR 0x22), (CHR 0x5C, CHR 0x5C), (CHR ''/'', CHR ''/''),
             (CHR ''b'', CHR 0x08), (CHR ''f'', CHR 0x0C), (CHR ''n'', CHR 0x0A),
             (CHR ''r'', CHR 0x0D), (CHR ''t'', CHR 0x09)]"

text \<open>
  \<^verbatim>\<open>parse_unicode\<close> (lines 193-201) is called with the cursor on the \<^verbatim>\<open>u\<close>. Near the end of
  the text it gives the NUL character and leaves the cursor; otherwise it moves the cursor
  to the last of the four characters after the \<^verbatim>\<open>u\<close> and converts them with \<^verbatim>\<open>std::stoi\<close>,
  whose exceptions nothing catches. \<^verbatim>\<open>static_cast<char>\<close> keeps the low eight bits.
\<close>

definition parse_unicode :: "string \<Rightarrow> nat \<Rightarrow> (char \<times> nat) outcome" where
  "parse_unicode s pos0 =
     (let pos = parse_whitespace s pos0
      in if length s \<le> pos + 4 then Returns (CHR 0x00, pos)
         else
           (case stoi16 (substr s (pos + 1) 4) of
              Inr n \<Rightarrow> Returns (char_of n, pos + 4)
            | Inl x \<Rightarrow> Throws x))"

text \<open>The \<^verbatim>\<open>while\<close> loop of \<^verbatim>\<open>parse_string\<close> (lines 168-185), with the string built so far.\<close>

function parse_string_loop :: "string \<Rightarrow> nat \<Rightarrow> string \<Rightarrow> (string \<times> nat) outcome" where
  "parse_string_loop s pos str =
     (if pos < length s \<and> s ! pos \<noteq> CHR 0x22 then
        (if s ! pos = CHR 0x5C then
           (if pos + 1 = length s then Unexpected parse_invalid_value
            else
              (case escape_mappping (s ! (pos + 1)) of
                 Some c \<Rightarrow> parse_string_loop s (pos + 2) (str @ [c])
               | None \<Rightarrow>
                   if s ! (pos + 1) = CHR ''u'' then
                     (case parse_unicode s (pos + 1) of
                        Returns (c, pos') \<Rightarrow> parse_string_loop s (pos' + 1) (str @ [c])
                      | Unexpected e \<Rightarrow> Unexpected e
                      | Throws x \<Rightarrow> Throws x)
                   else Unexpected parse_invalid_value))
         else parse_string_loop s (pos + 1) (str @ [s ! pos]))
      else Returns (str, pos))"
  by pat_completeness auto
termination
proof -
  have ws: "pos \<le> parse_whitespace s pos" for s pos
    by (induction s pos rule: parse_whitespace.induct)
       (subst parse_whitespace.simps, auto)
  have uni: "pos \<le> pos'" if "parse_unicode s pos = Returns (c, pos')" for s pos c pos'
    using that ws [of pos s]
    by (auto simp: parse_unicode_def Let_def split: if_splits sum.splits)
  show ?thesis
    by (relation "measure (\<lambda>(s, pos, str). length s - pos)") (auto dest: uni)
qed

declare parse_string_loop.simps [simp del]

definition parse_string :: "string \<Rightarrow> nat \<Rightarrow> (Node \<times> nat) outcome" where
  "parse_string s pos0 =
     (let pos = parse_whitespace s pos0
      in if pos = length s \<or> s ! pos \<noteq> CHR 0x22 then Unexpected parse_invalid_value
         else
           (case parse_string_loop s (pos + 1) [] of
              Returns (str, pos') \<Rightarrow>
                if pos' = length s \<or> s ! pos' \<noteq> CHR 0x22 then Unexpected parse_invalid_value
                else Returns (String str, pos' + 1)
            | Unexpected e \<Rightarrow> Unexpected e
            | Throws x \<Rightarrow> Throws x))"

text \<open>
  After an element of an array or a member of an object (lines 216-220 and 254-258):
  white space, a comma if there is one, white space.
\<close>

definition skip_separator :: "string \<Rightarrow> nat \<Rightarrow> nat" where
  "skip_separator s pos0 =
     (let pos = parse_whitespace s pos0;
          pos1 = (if pos < length s \<and> s ! pos = CHR '','' then pos + 1 else pos)
      in parse_whitespace s pos1)"

text \<open>
  \<^verbatim>\<open>parse_value\<close>, \<^verbatim>\<open>parse_array\<close> and \<^verbatim>\<open>parse_object\<close> (lines 203-288) call one another; the
  two \<^verbatim>\<open>while\<close> loops carry the container built so far. \<^verbatim>\<open>Array::push_back\<close> appends at the
  end, \<^verbatim>\<open>Object::emplace\<close> is \<open>emplace\<close> above. The \<^verbatim>\<open>switch\<close> is the chain of tests on
  \<^verbatim>\<open>json_str[pos]\<close>.
\<close>

function parse_value :: "string \<Rightarrow> nat \<Rightarrow> (Node \<times> nat) outcome"
  and parse_array :: "string \<Rightarrow> nat \<Rightarrow> (Node \<times> nat) outcome"
  and parse_array_loop :: "string \<Rightarrow> nat \<Rightarrow> Node list \<Rightarrow> (Node list \<times> nat) outcome"
  and parse_object :: "string \<Rightarrow> nat \<Rightarrow> (Node \<times> nat) outcome"
  and parse_object_loop ::
    "string \<Rightarrow> nat \<Rightarrow> (string \<times> Node) list \<Rightarrow> ((string \<times> Node) list \<times> nat) outcome"
where
  "parse_value s pos0 =
     (let pos = parse_whitespace s pos0
      in if pos = length s then Unexpected parse_expect_value
         else if s ! pos = CHR ''n'' then parse_null s pos
         else if s ! pos = CHR ''t'' then parse_true s pos
         else if s ! pos = CHR ''f'' then parse_false s pos
         else if s ! pos = CHR 0x22 then parse_string s pos
         else if s ! pos = CHR ''['' then parse_array s pos
         else if s ! pos = CHR ''{'' then parse_object s pos
         else parse_number s pos)"
| "parse_array s pos0 =
     (let pos = parse_whitespace s pos0
      in if pos = length s \<or> s ! pos \<noteq> CHR ''['' then Unexpected parse_invalid_value
         else
           (case parse_array_loop s (pos + 1) [] of
              Returns (array, pos') \<Rightarrow>
                if pos' = length s \<or> s ! pos' \<noteq> CHR '']'' then Unexpected parse_invalid_value
                else Returns (Array array, pos' + 1)
            | Unexpected e \<Rightarrow> Unexpected e
            | Throws x \<Rightarrow> Throws x))"
| "parse_array_loop s pos array =
     (if pos < length s \<and> s ! pos \<noteq> CHR '']'' then
        (case parse_value s pos of
           Returns (v, pos') \<Rightarrow> parse_array_loop s (skip_separator s pos') (array @ [v])
         | Unexpected e \<Rightarrow> Unexpected e
         | Throws x \<Rightarrow> Throws x)
      else Returns (array, pos))"
| "parse_object s pos0 =
     (let pos = parse_whitespace s pos0
      in if pos = length s \<or> s ! pos \<noteq> CHR ''{'' then Unexpected parse_invalid_value
         else
           (case parse_object_loop s (pos + 1) [] of
              Returns (object, pos') \<Rightarrow>
                if pos' = length s \<or> s ! pos' \<noteq> CHR ''}'' then Unexpected parse_invalid_value
                else Returns (Object object, pos' + 1)
            | Unexpected e \<Rightarrow> Unexpected e
            | Throws x \<Rightarrow> Throws x))"
| "parse_object_loop s pos object =
     (if pos < length s \<and> s ! pos \<noteq> CHR ''}'' then
        (case parse_string s pos of
           Returns (key, pos1) \<Rightarrow>
             (case key of
                String k \<Rightarrow>
                  (let pos2 = parse_whitespace s pos1
                   in if pos2 = length s \<or> s ! pos2 \<noteq> CHR '':'' then
                        Unexpected parse_invalid_value
                      else
                        (case parse_value s (pos2 + 1) of
                           Returns (v, pos3) \<Rightarrow>
                             parse_object_loop s (skip_separator s pos3) (emplace k v object)
                         | Unexpected e \<Rightarrow> Unexpected e
                         | Throws x \<Rightarrow> Throws x))
              | _ \<Rightarrow> Unexpected parse_invalid_value)
         | Unexpected e \<Rightarrow> Unexpected e
         | Throws x \<Rightarrow> Throws x)
      else Returns (object, pos))"
  by pat_completeness auto

text \<open>
  Termination: a loop calls \<^verbatim>\<open>parse_value\<close> at its own cursor and goes on from the cursor
  that call returns, which lies further right. The facts about the cursor come first,
  under the domain predicate of the recursion; the order is on the distance to the end of
  the text, then on the kind of call.
\<close>

termination
proof -
  have ws: "pos \<le> parse_whitespace s pos" for s pos
    by (induction s pos rule: parse_whitespace.induct)
       (subst parse_whitespace.simps, auto)
  have ws_le: "pos \<le> length s \<Longrightarrow> parse_whitespace s pos \<le> length s" for s pos
    by (induction s pos rule: parse_whitespace.induct)
       (subst parse_whitespace.simps, auto)
  have sd: "pos \<le> scan_digits s pos" for s pos
    by (induction s pos rule: scan_digits.induct)
       (subst scan_digits.simps, auto)
  have sd_strict: "pos < length s \<Longrightarrow> isdigit (s ! pos) \<Longrightarrow> pos < scan_digits s pos" for s pos
    using sd [of "Suc pos" s] by (subst scan_digits.simps) auto
  have uni: "pos \<le> pos'" if "parse_unicode s pos = Returns (c, pos')" for s pos c pos'
    using that ws [of pos s]
    by (auto simp: parse_unicode_def Let_def split: if_splits sum.splits)
  have sl: "parse_string_loop s pos str = Returns (r, pos') \<Longrightarrow> pos \<le> pos'"
    for s pos str r pos'
  proof (induction s pos str rule: parse_string_loop.induct)
    case (1 s pos str)
    note e = "1.prems" [unfolded parse_string_loop.simps [of s pos str]]
    show ?case using "1.IH" e
      by (fastforce split: if_splits option.splits outcome.splits dest: uni)
  qed
  have leaf:
    "parse_null s pos = Returns (v, pos') \<Longrightarrow> pos < pos'"
    "parse_true s pos = Returns (v, pos') \<Longrightarrow> pos < pos'"
    "parse_false s pos = Returns (v, pos') \<Longrightarrow> pos < pos'"
    "parse_string s pos = Returns (v, pos') \<Longrightarrow> pos < pos'" for s pos v pos'
    using ws [of pos s]
    by (auto simp: parse_null_def parse_true_def parse_false_def parse_string_def Let_def
          split: if_splits outcome.splits dest!: sl)
  have si: "scan_integer_part s pos = Some e \<Longrightarrow> pos \<le> e \<and> (pos < length s \<longrightarrow> pos < e)"
    for s pos e
    using sd [of pos s] sd [of "pos + 1" s] sd_strict [of pos s]
    by (auto simp: scan_integer_part_def Let_def split: if_splits)
  have sf: "scan_fraction s e = Some e1 \<Longrightarrow> e \<le> e1" for s e e1
    using sd [of "e + 1" s] by (auto simp: scan_fraction_def split: if_splits)
  have se: "scan_exponent s e = Some e1 \<Longrightarrow> e \<le> e1" for s e e1
    using sd [of "e + 2" s] by (auto simp: scan_exponent_def split: if_splits)
  have cc: "catch_conversion r e = Returns (v, pos') \<Longrightarrow> pos' = e" for r e v pos'
    by (auto simp: catch_conversion_def split: sum.splits cpp_exception.splits)
  have num: "parse_number s pos = Returns (v, pos')
      \<Longrightarrow> pos \<le> pos' \<and> (pos \<le> length s \<longrightarrow> pos < pos')" for s pos v pos'
    using ws [of pos s] ws_le [of pos s]
    by (fastforce simp: parse_number_def Let_def
          split: if_splits option.splits dest: si sf se cc)
  have sep: "pos \<le> skip_separator s pos" for s pos
    using ws [of pos s] ws [of "parse_whitespace s pos" s] ws [of "parse_whitespace s pos + 1" s]
    by (auto simp: skip_separator_def Let_def)
  have progress:
    "parse_value_parse_array_parse_array_loop_parse_object_parse_object_loop_dom
       (Inl (Inl (s, p)))
      \<Longrightarrow> parse_value s p = Returns (v, p') \<Longrightarrow> p \<le> p' \<and> (p \<le> length s \<longrightarrow> p < p')"
    "parse_value_parse_array_parse_array_loop_parse_object_parse_object_loop_dom
       (Inl (Inr (s1, p1)))
      \<Longrightarrow> parse_array s1 p1 = Returns (v1, p1') \<Longrightarrow> p1 < p1'"
    "parse_value_parse_array_parse_array_loop_parse_object_parse_object_loop_dom
       (Inr (Inl (s2, p2, a2)))
      \<Longrightarrow> parse_array_loop s2 p2 a2 = Returns (r2, p2') \<Longrightarrow> p2 \<le> p2'"
    "parse_value_parse_array_parse_array_loop_parse_object_parse_object_loop_dom
       (Inr (Inr (Inl (s3, p3))))
      \<Longrightarrow> parse_object s3 p3 = Returns (v3, p3') \<Longrightarrow> p3 < p3'"
    "parse_value_parse_array_parse_array_loop_parse_object_parse_object_loop_dom
       (Inr (Inr (Inr (s4, p4, a4))))
      \<Longrightarrow> parse_object_loop s4 p4 a4 = Returns (r4, p4') \<Longrightarrow> p4 \<le> p4'"
    for s p v p' s1 p1 v1 p1' s2 p2 a2 r2 p2' s3 p3 v3 p3' s4 p4 a4 r4 p4'
  proof (induction s p and s1 p1 and s2 p2 a2 and s3 p3 and s4 p4 a4
      arbitrary: v p' and v1 p1' and r2 p2' and v3 p3' and r4 p4'
      rule: parse_value_parse_array_parse_array_loop_parse_object_parse_object_loop.pinduct)
    case (1 s pos0)
    note e = "1.prems" [unfolded parse_value.psimps [OF "1.hyps"]]
    show ?case using e "1.IH" ws [of pos0 s] ws_le [of pos0 s]
      by (fastforce simp: Let_def split: if_splits dest: leaf num)
  next
    case (2 s pos0)
    note e = "2.prems" [unfolded parse_array.psimps [OF "2.hyps"]]
    show ?case using e "2.IH" ws [of pos0 s]
      by (fastforce simp: Let_def split: if_splits outcome.splits)
  next
    case (3 s pos array)
    note e = "3.prems" [unfolded parse_array_loop.psimps [OF "3.hyps"]]
    show ?case
    proof (cases "pos < length s \<and> s ! pos \<noteq> CHR '']''")
      case True
      with e obtain v q where pv: "parse_value s pos = Returns (v, q)"
        and l: "parse_array_loop s (skip_separator s q) (array @ [v]) = Returns (r2, p2')"
        by (auto split: outcome.splits)
      from "3.IH"(1) [OF True pv] have "pos \<le> q" by simp
      moreover from "3.IH"(2) [OF True pv refl l] have "skip_separator s q \<le> p2'" .
      ultimately show ?thesis using sep [of q s] by linarith
    qed (use e in auto)
  next
    case (4 s pos0)
    note e = "4.prems" [unfolded parse_object.psimps [OF "4.hyps"]]
    show ?case using e "4.IH" ws [of pos0 s]
      by (fastforce simp: Let_def split: if_splits outcome.splits)
  next
    case (5 s pos object)
    note e = "5.prems" [unfolded parse_object_loop.psimps [OF "5.hyps"]]
    show ?case
    proof (cases "pos < length s \<and> s ! pos \<noteq> CHR ''}''")
      case True
      with e obtain k q1 v q3 where ps: "parse_string s pos = Returns (String k, q1)"
        and c: "\<not> (parse_whitespace s q1 = length s \<or> s ! parse_whitespace s q1 \<noteq> CHR '':'')"
        and pv: "parse_value s (parse_whitespace s q1 + 1) = Returns (v, q3)"
        and l: "parse_object_loop s (skip_separator s q3) (emplace k v object)
                  = Returns (r4, p4')"
        by (auto simp: Let_def split: outcome.splits Node.splits if_splits)
      from leaf(4) [OF ps] have "pos < q1" .
      moreover from "5.IH"(1) [OF True ps refl refl refl c pv]
      have "parse_whitespace s q1 + 1 \<le> q3" by simp
      moreover from "5.IH"(2) [OF True ps refl refl refl c pv refl l]
      have "skip_separator s q3 \<le> p4'" .
      ultimately show ?thesis using sep [of q3 s] ws [of q1 s] by linarith
    qed (use e in auto)
  qed
  show ?thesis
    apply (relation "inv_image (less_than <*lex*> less_than) (\<lambda>x. case x of
        Inl (Inl (s, pos)) \<Rightarrow> (length s - pos, 2::nat)
      | Inl (Inr (s, pos)) \<Rightarrow> (length s - pos, 1)
      | Inr (Inl (s, pos, a)) \<Rightarrow> (if pos < length s then (length s - pos, 3) else (0, 0))
      | Inr (Inr (Inl (s, pos))) \<Rightarrow> (length s - pos, 1)
      | Inr (Inr (Inr (s, pos, ob))) \<Rightarrow>
          (if pos < length s then (length s - pos, 3) else (0, 0)))")
            apply (intro wf_inv_image wf_lex_prod wf_less_than)
           apply (auto dest!: progress(1) leaf(4))
    subgoal for s pos0 using ws [of pos0 s] by linarith
    subgoal for s pos0 using ws [of pos0 s] by linarith
    subgoal for s pos0 using ws [of pos0 s] by linarith
    subgoal for s pos a b using sep [of b s] by linarith
    subgoal for s pos0 using ws [of pos0 s] by linarith
    subgoal for s pos b using ws [of b s] by linarith
    subgoal for s pos b aa ba using ws [of b s] sep [of ba s] by linarith
    subgoal for s pos b aa ba using ws [of b s] sep [of ba s] by linarith
    done
qed

declare parse_value.simps [simp del] parse_array.simps [simp del]
  parse_array_loop.simps [simp del] parse_object.simps [simp del]
  parse_object_loop.simps [simp del]

text \<open>
  \<^verbatim>\<open>JsonParser::parse\<close> (lines 290-301) and the free function \<^verbatim>\<open>parse\<close> (lines 304-307), which
  starts a parser at \<^verbatim>\<open>pos = 0\<close>.
\<close>

definition JsonParser_parse :: "string \<Rightarrow> nat \<Rightarrow> Node outcome" where
  "JsonParser_parse s pos0 =
     (case parse_value s (parse_whitespace s pos0) of
        Returns (v, pos1) \<Rightarrow>
          if parse_whitespace s pos1 \<noteq> length s then Unexpected parse_root_not_singular
          else Returns v
      | Unexpected e \<Rightarrow> Unexpected e
      | Throws x \<Rightarrow> Throws x)"

definition parse :: "string \<Rightarrow> Node outcome" where
  "parse json_str = JsonParser_parse json_str 0"

section \<open>The generator (class JsonGenerator, lines 309-385)\<close>

text \<open>\<^verbatim>\<open>std::to_string\<close> of an integer: decimal digits, a minus sign in front when negative.\<close>

definition digit_char :: "nat \<Rightarrow> char" where
  "digit_char d = char_of (48 + d)"

function to_string_nat :: "nat \<Rightarrow> string" where
  "to_string_nat n =
     (if n < 10 then [digit_char n] else to_string_nat (n div 10) @ [digit_char (n mod 10)])"
  by pat_completeness auto
termination
  by (relation "measure id") auto

declare to_string_nat.simps [simp del]

definition to_string :: "int \<Rightarrow> string" where
  "to_string i = (if i < 0 then CHR ''-'' # to_string_nat (nat (- i)) else to_string_nat (nat i))"

text \<open>
  \<^verbatim>\<open>std::to_string\<close> of a double prints as \<^verbatim>\<open>%f\<close> does: the sign, then the exact value of the
  double rounded to six digits after the point (to nearest, ties to even); an infinity is
  \<^verbatim>\<open>inf\<close> and a NaN is \<^verbatim>\<open>nan\<close>, each after its sign.
\<close>

definition to_string_double :: "double \<Rightarrow> string" where
  "to_string_double d =
     (case d of
        Finite neg x \<Rightarrow>
          (let k = round_even (x * 1000000);
               whole = to_string_nat (nat (k div 1000000));
               frac = to_string_nat (nat (k mod 1000000))
           in (if neg then [CHR ''-''] else []) @ whole @ [CHR ''.'']
                @ replicate (6 - length frac) CHR ''0'' @ frac)
      | Infinite neg \<Rightarrow> (if neg then [CHR ''-''] else []) @ ''inf''
      | NaN neg \<Rightarrow> (if neg then [CHR ''-''] else []) @ ''nan'')"

text \<open>
  Whether \<^verbatim>\<open>char\<close> is signed is implementation-defined; \<open>sg\<close> says that it is (as with g++
  on x86-64). \<^verbatim>\<open>static_cast<int>(c)\<close> and the promotion in \<^verbatim>\<open>c < 0x20\<close> both give \<open>char_int sg c\<close>.
\<close>

definition char_int :: "bool \<Rightarrow> char \<Rightarrow> int" where
  "char_int sg c = (if sg \<and> 128 \<le> (of_char c :: int) then of_char c - 256 else of_char c)"

text \<open>The table \<^verbatim>\<open>escape_map\<close> of \<^verbatim>\<open>generate_string\<close>: a character and its two-character escape.\<close>

definition escape_map :: "char \<Rightarrow> string option" where
  "escape_map =
     map_of [(CHR 0x22, [CHR 0x5C, CHR 0x22]), (CHR 0x5C, [CHR 0x5C, CHR 0x5C]),
             (CHR ''/'', [CHR 0x5C, CHR ''/'']), (CHR 0x08, [CHR 0x5C, CHR ''b'']),
             (CHR 0x0C, [CHR 0x5C, CHR ''f'']), (CHR 0x0A, [CHR 0x5C, CHR ''n'']),
             (CHR 0x0D, [CHR 0x5C, CHR ''r'']), (CHR 0x09, [CHR 0x5C, CHR ''t''])]"

text \<open>What one pass of the \<^verbatim>\<open>for\<close> loop of \<^verbatim>\<open>generate_string\<close> appends for the character \<open>c\<close>.\<close>

definition generate_char :: "bool \<Rightarrow> char \<Rightarrow> string" where
  "generate_char sg c =
     (case escape_map c of
        Some esc \<Rightarrow> esc
      | None \<Rightarrow>
          if char_int sg c < 0x20 then
            [CHR 0x5C, CHR ''u''] @ replicate (4 - length (to_string (char_int sg c))) CHR ''0''
              @ to_string (char_int sg c)
          else [c])"

definition generate_string :: "bool \<Rightarrow> string \<Rightarrow> string" where
  "generate_string sg str =
     foldl (\<lambda>json_str c. json_str @ generate_char sg c) [CHR 0x22] str @ [CHR 0x22]"

text \<open>\<^verbatim>\<open>json_str.pop_back()\<close> under the test \<^verbatim>\<open>!container.empty()\<close>.\<close>

definition pop_back_unless :: "bool \<Rightarrow> string \<Rightarrow> string" where
  "pop_back_unless is_empty json_str = (if \<not> is_empty then butlast json_str else json_str)"

fun generate :: "bool \<Rightarrow> Node \<Rightarrow> string"
  and generate_array :: "bool \<Rightarrow> Node list \<Rightarrow> string"
  and generate_array_loop :: "bool \<Rightarrow> Node list \<Rightarrow> string \<Rightarrow> string"
  and generate_object :: "bool \<Rightarrow> (string \<times> Node) list \<Rightarrow> string"
  and generate_object_loop :: "bool \<Rightarrow> (string \<times> Node) list \<Rightarrow> string \<Rightarrow> string"
where
  "generate sg Null = ''null''"
| "generate sg (Boolean v) = (if v then ''true'' else ''false'')"
| "generate sg (Integer v) = to_string (sint v)"
| "generate sg (Float v) = to_string_double v"
| "generate sg (String v) = generate_string sg v"
| "generate sg (Array v) = generate_array sg v"
| "generate sg (Object v) = generate_object sg v"
| "generate_array sg array =
     pop_back_unless (array = []) (generate_array_loop sg array ''['') @ '']''"
| "generate_array_loop sg [] json_str = json_str"
| "generate_array_loop sg (node # rest) json_str =
     generate_array_loop sg rest (json_str @ generate sg node @ '','')"
| "generate_object sg object =
     pop_back_unless (object = []) (generate_object_loop sg object ''{'') @ ''}''"
| "generate_object_loop sg [] json_str = json_str"
| "generate_object_loop sg ((key, node) # rest) json_str =
     generate_object_loop sg rest
       (json_str @ generate_string sg key @ '':'' @ generate sg node @ '','')"

section \<open>Notions used to state the properties\<close>

text \<open>The strings \<open>xs\<close> with a comma between each two of them.\<close>

fun join_commas :: "string list \<Rightarrow> string" where
  "join_commas [] = []"
| "join_commas [x] = x"
| "join_commas (x # y # ys) = x @ '','' @ join_commas (y # ys)"

text \<open>The text of one member of an object: the key as a string, a colon, the value.\<close>

definition member_text :: "bool \<Rightarrow> string \<times> Node \<Rightarrow> string" where
  "member_text sg kv = generate_string sg (fst kv) @ '':'' @ generate sg (snd kv)"



section \<open>Properties\<close>

subsection \<open>Numbers out of range\<close>

lemma dbl_overflow_large: "1 \<le> m \<Longrightarrow> 309 \<le> e \<Longrightarrow> dbl_overflow m e"
proof -
  assume m: "1 \<le> m" and e: "309 \<le> e"
  have "(2::int) ^ 1024 - 2 ^ 970 \<le> 10 ^ 309" by simp
  also have "\<dots> \<le> 10 ^ nat e" using e by (intro power_increasing) auto
  also have "\<dots> \<le> int m * 10 ^ nat e" using m by (simp add: mult_le_cancel_right1)
  finally show ?thesis using e by (simp add: dbl_overflow_def)
qed

lemma stod_1e30009: "stod ''1e30009'' = Inl out_of_range"
proof -
  have "stod ''1e30009'' =
      (if dbl_overflow 1 30009 \<or> dbl_underflow 1 30009 then Inl out_of_range
       else Inr (Finite False (stod_value 1 30009)))"
    by (simp add: stod_def stod_exponent_def strip_sign_def is_sign_def isspace_def isdigit_def
          dec_value_def digit_val_def Let_def)
  moreover have "dbl_overflow 1 30009" by (rule dbl_overflow_large) simp_all
  ultimately show ?thesis by simp
qed

lemmas number_eval =
  parse_def JsonParser_parse_def parse_whitespace.simps parse_value.simps
  parse_number_def scan_integer_part_def scan_fraction_def scan_exponent_def
  scan_digits.simps is_integer_lexeme_end_def substr_def isspace_def isdigit_def
  catch_conversion_def Let_def

lemmas stoll_eval =
  stoll_def strip_sign_def is_sign_def dec_value_def digit_val_def

text \<open>
  C2. Error discrimination: the empty text fails with \<open>parse_expect_value\<close>, \<^verbatim>\<open>nul\<close> with
  \<open>parse_invalid_value\<close>, \<^verbatim>\<open>null x\<close> with \<open>parse_root_not_singular\<close>, and \<^verbatim>\<open>1e30009\<close> and the
  integer of 48 digits both with \<open>parse_number_too_big\<close>.
\<close>

theorem parse_error_discrimination:
  "parse '''' = Unexpected parse_expect_value
   \<and> parse ''nul'' = Unexpected parse_invalid_value
   \<and> parse ''null x'' = Unexpected parse_root_not_singular
   \<and> parse ''1e30009'' = Unexpected parse_number_too_big
   \<and> parse ''100000000000000000000000000000000000000000000000''
       = Unexpected parse_number_too_big"
proof -
  have "parse '''' = Unexpected parse_expect_value" by code_simp
  moreover have "parse ''nul'' = Unexpected parse_invalid_value" by code_simp
  moreover have "parse ''null x'' = Unexpected parse_root_not_singular" by code_simp
  moreover have "parse ''1e30009'' = Unexpected parse_number_too_big"
    by (simp add: number_eval stod_1e30009)
  moreover have "parse ''100000000000000000000000000000000000000000000000''
      = Unexpected parse_number_too_big"
    by (simp add: number_eval stoll_eval)
  ultimately show ?thesis by simp
qed



text \<open>
  C4. The text \<^verbatim>\<open>"\uzzzz"\<close> is a string whose \<^verbatim>\<open>\u\<close> escape has no hexadecimal digit:
  \<^verbatim>\<open>std::stoi\<close> throws \<^verbatim>\<open>std::invalid_argument\<close> in \<^verbatim>\<open>parse_unicode\<close>, nothing catches it, and
  it leaves \<^verbatim>\<open>parse\<close>. A \<^verbatim>\<open>\u\<close> escape cut short by the closing quote gives a NUL character
  and no error.
\<close>

theorem parse_unicode_exception_escapes:
  "parse ([CHR 0x22, CHR 0x5C] @ ''uzzzz'' @ [CHR 0x22]) = Throws invalid_argument
   \<and> parse ([CHR 0x22, CHR 0x5C] @ ''u12'' @ [CHR 0x22])
       = Returns (String [CHR 0x00, CHR ''1'', CHR ''2''])"
proof -
  have "parse ([CHR 0x22, CHR 0x5C] @ ''uzzzz'' @ [CHR 0x22]) = Throws invalid_argument"
    by code_simp
  moreover have "parse ([CHR 0x22, CHR 0x5C] @ ''u12'' @ [CHR 0x22])
       = Returns (String [CHR 0x00, CHR ''1'', CHR ''2''])"
    by code_simp
  ultimately show ?thesis by simp
qed

text \<open>
  C5. For the String holding the single byte 0x1F, \<^verbatim>\<open>generate\<close> writes the escape \<^verbatim>\<open>\u0031\<close>:
  the digits are the decimal number 31 of the byte, not its hexadecimal number 1F. This
  is so whether \<^verbatim>\<open>char\<close> is signed or not.
\<close>

theorem generate_string_control_escape_decimal:
  "generate sg (String [CHR 0x1F]) = [CHR 0x22, CHR 0x5C] @ ''u0031'' @ [CHR 0x22]"
proof -
  have "generate True (String [CHR 0x1F]) = [CHR 0x22, CHR 0x5C] @ ''u0031'' @ [CHR 0x22]"
    by code_simp
  moreover
  have "generate False (String [CHR 0x1F]) = [CHR 0x22, CHR 0x5C] @ ''u0031'' @ [CHR 0x22]"
    by code_simp
  ultimately show ?thesis by (cases sg) simp_all
qed

text \<open>
  C1. The String holding the single byte 0x0B (vertical tab) does not come back from
  \<^verbatim>\<open>parse (generate t)\<close>: \<^verbatim>\<open>generate\<close> writes \<^verbatim>\<open>"\u0011"\<close>, with the decimal number of the
  byte, and \<^verbatim>\<open>parse\<close> reads the four digits as hexadecimal, which is the byte 0x11.
\<close>

theorem roundtrip_vertical_tab:
  "generate sg (String [CHR 0x0B]) = [CHR 0x22, CHR 0x5C] @ ''u0011'' @ [CHR 0x22]
   \<and> parse (generate sg (String [CHR 0x0B])) = Returns (String [CHR 0x11])"
proof -
  have "generate True (String [CHR 0x0B]) = [CHR 0x22, CHR 0x5C] @ ''u0011'' @ [CHR 0x22]"
    "generate False (String [CHR 0x0B]) = [CHR 0x22, CHR 0x5C] @ ''u0011'' @ [CHR 0x22]"
    by code_simp+
  then have g: "generate sg (String [CHR 0x0B]) = [CHR 0x22, CHR 0x5C] @ ''u0011'' @ [CHR 0x22]"
    by (cases sg) simp_all
  have "parse ([CHR 0x22, CHR 0x5C] @ ''u0011'' @ [CHR 0x22]) = Returns (String [CHR 0x11])"
    by code_simp
  with g show ?thesis by simp
qed

text \<open>
  C9. Keyed lookup throws \<^verbatim>\<open>runtime_error("not an object")\<close> on a node that is no Object and
  \<^verbatim>\<open>std::out_of_range\<close> (from \<^verbatim>\<open>map::at\<close>) for an absent key; positional lookup throws
  \<^verbatim>\<open>runtime_error("not an array")\<close> on a node that is no Array and \<^verbatim>\<open>std::out_of_range\<close>
  (from \<^verbatim>\<open>vector::at\<close>) for an index that is not below the size. In the remaining cases the
  lookup returns the child stored under the key or at the index. Both are functions of
  the node and leave it as it is.
\<close>

theorem node_lookup_outcomes:
  "((\<forall>object. node \<noteq> Object object) \<longrightarrow> at_key node key = Inl (runtime_error ''not an object''))
   \<and> (node = Object object \<and> key \<notin> fst ` set object \<longrightarrow> at_key node key = Inl out_of_range)
   \<and> (node = Object object \<and> sorted_wrt (<) (map fst object) \<and> (key, child) \<in> set object
        \<longrightarrow> at_key node key = Inr child)
   \<and> ((\<forall>array. node \<noteq> Array array) \<longrightarrow> at_index node i = Inl (runtime_error ''not an array''))
   \<and> (node = Array array \<and> length array \<le> i \<longrightarrow> at_index node i = Inl out_of_range)
   \<and> (node = Array array \<and> i < length array \<longrightarrow> at_index node i = Inr (array ! i))"
proof -
  have "map_of object key = Some child"
    if "sorted_wrt (<) (map fst object)" "(key, child) \<in> set object"
    using that by (intro map_of_is_SomeI) (simp_all add: strict_sorted_iff)
  moreover have "map_of object key = None" if "key \<notin> fst ` set object"
    using that by (simp add: map_of_eq_None_iff)
  ultimately show ?thesis
    by (auto simp: at_key_def at_index_def split: Node.splits)
qed

theorem node_lookup_outcomes_witness:
  "at_key (Integer 1) ''a'' = Inl (runtime_error ''not an object'')
   \<and> at_key (Object [(''a'', Null)]) ''b'' = Inl out_of_range
   \<and> at_key (Object [(''a'', Null), (''b'', Boolean True)]) ''b'' = Inr (Boolean True)
   \<and> at_index (Integer 1) 0 = Inl (runtime_error ''not an array'')
   \<and> at_index (Array [Null]) 1 = Inl out_of_range
   \<and> at_index (Array [Null, Integer 7]) 1 = Inr (Integer 7)"
  using node_lookup_outcomes [of "Integer 1" "''a''" "[]" Null 0 "[]"]
    node_lookup_outcomes [of "Object [(''a'', Null)]" "''b''" "[(''a'', Null)]" Null 0 "[]"]
    node_lookup_outcomes [of "Object [(''a'', Null), (''b'', Boolean True)]" "''b''"
      "[(''a'', Null), (''b'', Boolean True)]" "Boolean True" 0 "[]"]
    node_lookup_outcomes [of "Array [Null]" "''a''" "[]" Null 1 "[Null]"]
    node_lookup_outcomes [of "Array [Null, Integer 7]" "''a''" "[]" Null 1 "[Null, Integer 7]"]
  by simp

subsection \<open>The sorted association list behind an Object\<close>

lemma keys_emplace: "set (map fst (emplace k v m)) = insert k (set (map fst m))"
proof (induction m)
  case Nil
  show ?case by simp
next
  case (Cons kv m)
  obtain k' v' where kv: "kv = (k', v')" by (cases kv)
  consider "k < k'" | "\<not> k < k'" "k = k'" | "\<not> k < k'" "k \<noteq> k'" by blast
  then show ?case
  proof cases
    case 1
    with kv show ?thesis by simp
  next
    case 2
    with kv show ?thesis by (simp add: insert_absorb)
  next
    case 3
    with kv Cons.IH show ?thesis by (simp add: insert_commute)
  qed
qed

lemma set_emplace: "set (emplace k v m) \<subseteq> insert (k, v) (set m)"
proof (induction m)
  case Nil
  show ?case by simp
next
  case (Cons kv m)
  obtain k' v' where kv: "kv = (k', v')" by (cases kv)
  consider "k < k'" | "\<not> k < k'" "k = k'" | "\<not> k < k'" "k \<noteq> k'" by blast
  then show ?case
  proof cases
    case 1
    with kv show ?thesis by simp
  next
    case 2
    with kv show ?thesis by auto
  next
    case 3
    with kv Cons.IH show ?thesis by auto
  qed
qed

lemma sorted_emplace:
  "sorted_wrt (<) (map fst m) \<Longrightarrow> sorted_wrt (<) (map fst (emplace k v m))"
proof (induction m)
  case Nil
  then show ?case by simp
next
  case (Cons kv m)
  obtain k' v' where kv: "kv = (k', v')" by (cases kv)
  from Cons.prems kv have "\<forall>x \<in> set (map fst m). k' < x" and "sorted_wrt (<) (map fst m)"
    by auto
  with Cons.IH kv show ?case
    by (auto simp: keys_emplace simp del: set_map)
qed

lemma map_of_emplace:
  "sorted_wrt (<) (map fst m) \<Longrightarrow> map_of (emplace k v m) = [k \<mapsto> v] ++ map_of m"
proof (induction m)
  case Nil
  then show ?case by simp
next
  case (Cons kv m)
  obtain k' v' where kv: "kv = (k', v')" by (cases kv)
  from Cons.prems kv have above: "\<forall>x \<in> set (map fst m). k' < x"
    and sm: "sorted_wrt (<) (map fst m)"
    by auto
  show ?case
  proof (cases "k < k'")
    case True
    with above have "k \<notin> set (map fst m)" by auto
    then have "map_of m k = None" by (simp add: map_of_eq_None_iff)
    with True kv show ?thesis by (auto simp: fun_eq_iff map_add_def split: option.splits)
  next
    case False
    with Cons.IH [OF sm] kv show ?thesis
      by (auto simp: fun_eq_iff map_add_def split: option.splits)
  qed
qed

lemma object_of_foldl:
  "sorted_wrt (<) (map fst acc) \<Longrightarrow>
     sorted_wrt (<) (map fst (foldl (\<lambda>m (k, v). emplace k v m) acc kvs))
     \<and> map_of (foldl (\<lambda>m (k, v). emplace k v m) acc kvs) = map_of kvs ++ map_of acc
     \<and> set (map fst (foldl (\<lambda>m (k, v). emplace k v m) acc kvs))
         = set (map fst acc) \<union> set (map fst kvs)"
proof (induction kvs arbitrary: acc)
  case Nil
  then show ?case by simp
next
  case (Cons kv kvs)
  obtain k v where kv: "kv = (k, v)" by (cases kv)
  have s: "sorted_wrt (<) (map fst (emplace k v acc))"
    using Cons.prems by (rule sorted_emplace)
  have "map_of kvs ++ map_of (emplace k v acc) = map_of ((k, v) # kvs) ++ map_of acc"
    using Cons.prems
    by (auto simp: map_of_emplace fun_eq_iff map_add_def split: option.splits)
  with Cons.IH [OF s] kv show ?case
    by (simp add: keys_emplace insert_commute del: set_map map_of.simps)
qed

lemma sorted_object_of: "sorted_wrt (<) (map fst (object_of kvs))"
  using object_of_foldl [of "[]" kvs] by (simp add: object_of_def)

lemma map_of_object_of: "map_of (object_of kvs) = map_of kvs"
  using object_of_foldl [of "[]" kvs] by (simp add: object_of_def)

lemma keys_object_of: "set (map fst (object_of kvs)) = set (map fst kvs)"
  using object_of_foldl [of "[]" kvs] by (simp add: object_of_def del: set_map)


text \<open>A strictly sorted association list is determined by the map it represents.\<close>

lemma alist_values:
  fixes zs :: "(string \<times> Node) list"
  assumes "distinct (map fst zs)"
  shows "map snd zs = map (\<lambda>k. the (map_of zs k)) (map fst zs)"
  using assms
proof (induction zs)
  case Nil
  then show ?case by simp
next
  case (Cons z zs)
  obtain a b where z: "z = (a, b)" by (cases z)
  from Cons.prems z have na: "a \<notin> set (map fst zs)" and d: "distinct (map fst zs)"
    by simp_all
  have "map (\<lambda>k. the (map_of (z # zs) k)) (map fst zs) = map (\<lambda>k. the (map_of zs k)) (map fst zs)"
  proof (rule map_cong [OF refl])
    fix k assume "k \<in> set (map fst zs)"
    with na have "k \<noteq> a" by blast
    then show "the (map_of (z # zs) k) = the (map_of zs k)" using z by simp
  qed
  with Cons.IH [OF d] z show ?case by simp
qed

lemma sorted_alist_unique:
  fixes xs ys :: "(string \<times> Node) list"
  assumes "sorted_wrt (<) (map fst xs)" "sorted_wrt (<) (map fst ys)" "map_of xs = map_of ys"
  shows "xs = ys"
proof -
  have dx: "distinct (map fst xs)" and dy: "distinct (map fst ys)"
    using assms(1,2) by (simp_all add: strict_sorted_iff)
  from assms(3) have "set xs = set ys"
    using dx dy by (simp add: map_of_inject_set)
  then have "set (map fst xs) = set (map fst ys)" by simp
  then have keys: "map fst xs = map fst ys"
    using assms(1,2) by (intro sorted_distinct_set_unique) (simp_all add: strict_sorted_iff)
  note vals = alist_values
  have "map snd xs = map (\<lambda>k. the (map_of xs k)) (map fst xs)" by (rule vals [OF dx])
  also have "\<dots> = map (\<lambda>k. the (map_of ys k)) (map fst ys)" by (simp only: keys assms(3))
  also have "\<dots> = map snd ys" by (rule vals [OF dy, symmetric])
  finally have "zip (map fst xs) (map snd xs) = zip (map fst ys) (map snd ys)"
    by (simp only: keys)
  then show ?thesis by (simp only: zip_map_fst_snd)
qed

subsection \<open>The text of a container\<close>

lemma butlast_commas:
  "xs \<noteq> [] \<Longrightarrow> butlast (js @ concat (map (\<lambda>x. x @ '','') xs)) = js @ join_commas xs"
proof (induction xs arbitrary: js rule: join_commas.induct)
  case 1
  then show ?case by simp
next
  case (2 x)
  show ?case by (simp add: butlast_append)
next
  case (3 x y ys)
  have "butlast ((js @ x @ '','') @ concat (map (\<lambda>x. x @ '','') (y # ys)))
      = (js @ x @ '','') @ join_commas (y # ys)"
    by (rule "3.IH") simp
  then show ?case by simp
qed

lemma generate_object_loop_concat:
  "generate_object_loop sg m js = js @ concat (map (\<lambda>kv. member_text sg kv @ '','') m)"
  by (induction m arbitrary: js) (auto simp: member_text_def)

lemma generate_array_loop_concat:
  "generate_array_loop sg xs js = js @ concat (map (\<lambda>x. generate sg x @ '','') xs)"
  by (induction xs arbitrary: js) auto

lemma generate_object_text:
  "generate sg (Object m) = ''{'' @ join_commas (map (member_text sg) m) @ ''}''"
proof (cases "m = []")
  case True
  then show ?thesis by (simp add: pop_back_unless_def)
next
  case False
  have "concat (map (\<lambda>kv. member_text sg kv @ '','') m)
      = concat (map (\<lambda>x. x @ '','') (map (member_text sg) m))"
    by (simp add: comp_def)
  with False butlast_commas [of "map (member_text sg) m" "''{''"] show ?thesis
    by (simp add: pop_back_unless_def generate_object_loop_concat)
qed

lemma generate_array_text:
  "generate sg (Array xs) = ''['' @ join_commas (map (generate sg) xs) @ '']''"
proof (cases "xs = []")
  case True
  then show ?thesis by (simp add: pop_back_unless_def)
next
  case False
  have "concat (map (\<lambda>x. generate sg x @ '','') xs)
      = concat (map (\<lambda>x. x @ '','') (map (generate sg) xs))"
    by (simp add: comp_def)
  with False butlast_commas [of "map (generate sg) xs" "''[''"] show ?thesis
    by (simp add: pop_back_unless_def generate_array_loop_concat)
qed

text \<open>
  C7. An object built by inserting pairs in any order has its keys in strictly ascending
  order, and they are the keys inserted; \<^verbatim>\<open>generate\<close> writes the members of an Object in
  the order of the map, separated by commas; two insertion orders of the same pairs (with
  distinct keys) build the same object. Inserting \<^verbatim>\<open>b\<close> before \<^verbatim>\<open>a\<close> gives \<^verbatim>\<open>{"a":1,"b":2}\<close>.
\<close>

theorem generate_object_key_order:
  "sorted_wrt (<) (map fst (object_of kvs))
   \<and> set (map fst (object_of kvs)) = set (map fst kvs)
   \<and> generate sg (Object m) = ''{'' @ join_commas (map (member_text sg) m) @ ''}''
   \<and> (distinct (map fst kvs) \<and> distinct (map fst kvs') \<and> set kvs = set kvs'
        \<longrightarrow> object_of kvs = object_of kvs')
   \<and> generate sg (Object (object_of [(''b'', Integer 2), (''a'', Integer 1)]))
       = [CHR ''{'', CHR 0x22, CHR ''a'', CHR 0x22, CHR '':'', CHR ''1'', CHR '','',
          CHR 0x22, CHR ''b'', CHR 0x22, CHR '':'', CHR ''2'', CHR ''}'']"
proof -
  have perm: "object_of kvs = object_of kvs'"
    if "distinct (map fst kvs)" "distinct (map fst kvs')" "set kvs = set kvs'"
  proof (rule sorted_alist_unique)
    from that have "map_of kvs = map_of kvs'" by (simp add: map_of_inject_set)
    then show "map_of (object_of kvs) = map_of (object_of kvs')"
      by (simp only: map_of_object_of)
  qed (rule sorted_object_of)+
  have "generate True (Object (object_of [(''b'', Integer 2), (''a'', Integer 1)]))
       = [CHR ''{'', CHR 0x22, CHR ''a'', CHR 0x22, CHR '':'', CHR ''1'', CHR '','',
          CHR 0x22, CHR ''b'', CHR 0x22, CHR '':'', CHR ''2'', CHR ''}'']"
    "generate False (Object (object_of [(''b'', Integer 2), (''a'', Integer 1)]))
       = [CHR ''{'', CHR 0x22, CHR ''a'', CHR 0x22, CHR '':'', CHR ''1'', CHR '','',
          CHR 0x22, CHR ''b'', CHR 0x22, CHR '':'', CHR ''2'', CHR ''}'']"
    by code_simp+
  then have ex: "generate sg (Object (object_of [(''b'', Integer 2), (''a'', Integer 1)]))
       = [CHR ''{'', CHR 0x22, CHR ''a'', CHR 0x22, CHR '':'', CHR ''1'', CHR '','',
          CHR 0x22, CHR ''b'', CHR 0x22, CHR '':'', CHR ''2'', CHR ''}'']"
    by (cases sg) simp_all
  show ?thesis
    using perm ex sorted_object_of [of kvs] keys_object_of [of kvs] generate_object_text [of sg m]
    by blast
qed

theorem generate_object_key_order_witness:
  "distinct (map fst [(''b'', Integer 2), (''a'', Integer 1)])
   \<and> distinct (map fst [(''a'', Integer 1), (''b'', Integer 2)])
   \<and> set [(''b'', Integer 2), (''a'', Integer 1)] = set [(''a'', Integer 1), (''b'', Integer 2)]
   \<and> object_of [(''b'', Integer 2), (''a'', Integer 1)]
       = object_of [(''a'', Integer 1), (''b'', Integer 2)]"
proof -
  have "distinct (map fst [(''b'', Integer 2), (''a'', Integer 1)])
   \<and> distinct (map fst [(''a'', Integer 1), (''b'', Integer 2)])
   \<and> set [(''b'', Integer 2), (''a'', Integer 1)] = set [(''a'', Integer 1), (''b'', Integer 2)]"
    by auto
  with generate_object_key_order
    [of "[(''b'', Integer 2), (''a'', Integer 1)]" True "[]" "[(''a'', Integer 1), (''b'', Integer 2)]"]
  show ?thesis by blast
qed

subsection \<open>Every parsed tree is well formed\<close>

lemma wf_emplace: "wf_node (Object m) \<Longrightarrow> wf_node v \<Longrightarrow> wf_node (Object (emplace k v m))"
  using set_emplace [of k v m] by (auto simp: sorted_emplace list_all_iff)

lemma catch_conversion_wf:
  "catch_conversion (map_sum id Integer r) e = Returns (v, p) \<Longrightarrow> wf_node v"
  "catch_conversion (map_sum id Float r') e = Returns (v, p) \<Longrightarrow> wf_node v"
  by (cases r; cases r'; auto simp: catch_conversion_def split: cpp_exception.splits)+

lemma leaf_wf:
  "parse_null s p = Returns (v, p') \<Longrightarrow> wf_node v"
  "parse_true s p = Returns (v, p') \<Longrightarrow> wf_node v"
  "parse_false s p = Returns (v, p') \<Longrightarrow> wf_node v"
  "parse_string s p = Returns (v, p') \<Longrightarrow> wf_node v"
  "parse_number s p = Returns (v, p') \<Longrightarrow> wf_node v"
  by (auto simp: parse_null_def parse_true_def parse_false_def parse_string_def parse_number_def
        Let_def split: if_splits outcome.splits option.splits dest: catch_conversion_wf)

lemma parse_value_wf:
  "parse_value s p = Returns (v, p') \<Longrightarrow> wf_node v"
  "parse_array s1 p1 = Returns (v1, p1') \<Longrightarrow> wf_node v1"
  "parse_array_loop s2 p2 a2 = Returns (r2, p2') \<Longrightarrow> list_all wf_node a2 \<Longrightarrow> list_all wf_node r2"
  "parse_object s3 p3 = Returns (v3, p3') \<Longrightarrow> wf_node v3"
  "parse_object_loop s4 p4 a4 = Returns (r4, p4') \<Longrightarrow> wf_node (Object a4)
     \<Longrightarrow> wf_node (Object r4)"
proof (induction s p and s1 p1 and s2 p2 a2 and s3 p3 and s4 p4 a4
    arbitrary: v p' and v1 p1' and r2 p2' and v3 p3' and r4 p4'
    rule: parse_value_parse_array_parse_array_loop_parse_object_parse_object_loop.induct)
  case (1 s pos0)
  note e = "1.prems" [unfolded parse_value.simps [of s pos0]]
  show ?case using e "1.IH"
    by (fastforce simp: Let_def split: if_splits dest: leaf_wf)
next
  case (2 s pos0)
  note e = "2.prems" [unfolded parse_array.simps [of s pos0]]
  show ?case using e "2.IH"
    by (fastforce simp: Let_def split: if_splits outcome.splits)
next
  case (3 s pos array)
  note e = "3.prems"(1) [unfolded parse_array_loop.simps [of s pos array]]
  show ?case
  proof (cases "pos < length s \<and> s ! pos \<noteq> CHR '']''")
    case True
    with e obtain v q where pv: "parse_value s pos = Returns (v, q)"
      and l: "parse_array_loop s (skip_separator s q) (array @ [v]) = Returns (r2, p2')"
      by (auto split: outcome.splits)
    from "3.IH"(1) [OF True pv] have "wf_node v" .
    with "3.prems"(2) have "list_all wf_node (array @ [v])" by simp
    with "3.IH"(2) [OF True pv refl l] show ?thesis .
  qed (use e "3.prems"(2) in auto)
next
  case (4 s pos0)
  note e = "4.prems" [unfolded parse_object.simps [of s pos0]]
  show ?case using e "4.IH"
    by (fastforce simp: Let_def split: if_splits outcome.splits)
next
  case (5 s pos object)
  note e = "5.prems"(1) [unfolded parse_object_loop.simps [of s pos object]]
  show ?case
  proof (cases "pos < length s \<and> s ! pos \<noteq> CHR ''}''")
    case True
    with e obtain k q1 v q3 where ps: "parse_string s pos = Returns (String k, q1)"
      and c: "\<not> (parse_whitespace s q1 = length s \<or> s ! parse_whitespace s q1 \<noteq> CHR '':'')"
      and pv: "parse_value s (parse_whitespace s q1 + 1) = Returns (v, q3)"
      and l: "parse_object_loop s (skip_separator s q3) (emplace k v object)
                = Returns (r4, p4')"
      by (auto simp: Let_def split: outcome.splits Node.splits if_splits)
    from "5.IH"(1) [OF True ps refl refl refl c pv] have "wf_node v" .
    with "5.prems"(2) have "wf_node (Object (emplace k v object))" by (rule wf_emplace)
    with "5.IH"(2) [OF True ps refl refl refl c pv refl l] show ?thesis .
  qed (use e "5.prems"(2) in auto)
qed

lemma parse_wf: "parse s = Returns t \<Longrightarrow> wf_node t"
  by (auto simp: parse_def JsonParser_parse_def split: outcome.splits if_splits
        dest: parse_value_wf(1))

text \<open>
  C3, as the code has it. Every Object of a parsed tree has strictly ascending keys, so no
  key twice. \<^verbatim>\<open>emplace\<close> keeps the order and, for a key that is already there, the value
  that is already there; an object built from a sequence of pairs maps each key to the
  value of its first pair. The text \<^verbatim>\<open>{"a":1,"a":2}\<close> parses to the object that maps \<^verbatim>\<open>a\<close> to 1.
\<close>

theorem object_keys_unique_first_insertion_kept:
  "(parse s = Returns t \<longrightarrow> wf_node t)
   \<and> (sorted_wrt (<) (map fst m) \<longrightarrow>
        sorted_wrt (<) (map fst (emplace k v m))
        \<and> map_of (emplace k v m) k'
            = (if k' = k \<and> map_of m k = None then Some v else map_of m k'))
   \<and> map_of (object_of kvs) = map_of kvs
   \<and> parse ''{\"a\":1,\"a\":2}'' = Returns (Object [(''a'', Integer 1)])"
proof -
  have "parse ''{\"a\":1,\"a\":2}'' = Returns (Object [(''a'', Integer 1)])" by code_simp
  moreover have "map_of (emplace k v m) k'
            = (if k' = k \<and> map_of m k = None then Some v else map_of m k')"
    if "sorted_wrt (<) (map fst m)"
    using that by (auto simp: map_of_emplace map_add_def split: option.splits)
  ultimately show ?thesis
    using parse_wf [of s t] sorted_emplace [of m k v] map_of_object_of [of kvs] by blast
qed

theorem object_keys_unique_first_insertion_kept_witness:
  "parse ''{\"b\":[],\"a\":{}}'' = Returns (Object [(''a'', Object []), (''b'', Array [])])
   \<and> wf_node (Object [(''a'', Object []), (''b'', Array [])])
   \<and> sorted_wrt (<) (map fst [(''a'', Null), (''c'', Null)])
   \<and> sorted_wrt (<) (map fst (emplace ''b'' (Boolean True) [(''a'', Null), (''c'', Null)]))
   \<and> map_of (emplace ''c'' (Boolean True) [(''a'', Null), (''c'', Null)]) ''c'' = Some Null"
proof -
  have p: "parse ''{\"b\":[],\"a\":{}}'' = Returns (Object [(''a'', Object []), (''b'', Array [])])"
    by code_simp
  have s: "sorted_wrt (<) (map fst [(''a'', Null), (''c'', Null)])" by simp
  from object_keys_unique_first_insertion_kept
    [of "''{\"b\":[],\"a\":{}}''" "Object [(''a'', Object []), (''b'', Array [])]"
        "[(''a'', Null), (''c'', Null)]" "''b''" "Boolean True" "''c''" "[]"]
    object_keys_unique_first_insertion_kept
    [of "[]" Null "[(''a'', Null), (''c'', Null)]" "''c''" "Boolean True" "''c''" "[]"]
    p s
  show ?thesis by simp
qed

text \<open>
  C3, as the claim states it, fails: in \<^verbatim>\<open>{"a":1,"a":2}\<close> the key \<^verbatim>\<open>a\<close> comes twice, and the
  parsed Object maps it to the earlier value 1, not to the later value 2.
\<close>

theorem duplicate_key_last_write_counterexample:
  "parse ''{\"a\":1,\"a\":2}'' = Returns (Object [(''a'', Integer 1)])
   \<and> map_of [(''a'', Integer 1)] ''a'' \<noteq> Some (Integer 2)"
proof -
  have "parse ''{\"a\":1,\"a\":2}'' = Returns (Object [(''a'', Integer 1)])" by code_simp
  then show ?thesis by simp
qed

subsection \<open>The cursor stays inside the text\<close>

lemma parse_whitespace_ge: "pos \<le> parse_whitespace s pos"
  by (induction s pos rule: parse_whitespace.induct) (subst parse_whitespace.simps, auto)











subsection \<open>Strings without quote and backslash\<close>

lemma parse_string_loop_plain:
  "\<forall>c \<in> set body. c \<noteq> CHR 0x22 \<and> c \<noteq> CHR 0x5C \<Longrightarrow>
     parse_string_loop (pre @ body @ CHR 0x22 # post) (length pre) str
       = Returns (str @ body, length pre + length body)"
proof (induction body arbitrary: pre str)
  case Nil
  show ?case by (subst parse_string_loop.simps) simp
next
  case (Cons c body)
  from Cons.prems have c: "c \<noteq> CHR 0x22" "c \<noteq> CHR 0x5C"
    and rest: "\<forall>c \<in> set body. c \<noteq> CHR 0x22 \<and> c \<noteq> CHR 0x5C"
    by simp_all
  have "parse_string_loop (pre @ (c # body) @ CHR 0x22 # post) (length pre) str
      = parse_string_loop (pre @ (c # body) @ CHR 0x22 # post) (length pre + 1) (str @ [c])"
    using c by (subst parse_string_loop.simps) (simp add: nth_append)
  also have "\<dots> = parse_string_loop ((pre @ [c]) @ body @ CHR 0x22 # post)
      (length (pre @ [c])) (str @ [c])"
    by simp
  also have "\<dots> = Returns ((str @ [c]) @ body, length (pre @ [c]) + length body)"
    using rest by (rule Cons.IH)
  finally show ?case by simp
qed


lemma parse_plain_string:
  assumes "\<forall>c \<in> set body. c \<noteq> CHR 0x22 \<and> c \<noteq> CHR 0x5C"
  shows "parse (CHR 0x22 # body @ [CHR 0x22]) = Returns (String body)"
proof -
  let ?s = "CHR 0x22 # body @ [CHR 0x22]"
  have w0: "parse_whitespace ?s 0 = 0"
    by (subst parse_whitespace.simps) (simp add: isspace_def)
  have l: "parse_string_loop ?s (Suc 0) [] = Returns (body, Suc (length body))"
    using parse_string_loop_plain [OF assms, of "[CHR 0x22]" "[]" "[]"] by simp
  have ps: "parse_string ?s 0 = Returns (String body, Suc (Suc (length body)))"
    by (simp add: parse_string_def w0 l nth_append)
  have pv: "parse_value ?s 0 = Returns (String body, Suc (Suc (length body)))"
    by (subst parse_value.simps) (simp add: w0 ps)
  have we: "parse_whitespace ?s (Suc (Suc (length body))) = Suc (Suc (length body))"
    by (subst parse_whitespace.simps) simp
  show ?thesis by (simp add: parse_def JsonParser_parse_def w0 pv we)
qed


text \<open>
  C10. A byte below 0x20 inside a string is neither the quote nor the backslash, so the
  loop of \<^verbatim>\<open>parse_string\<close> appends it to the string and moves on; and a text that is a quote,
  any bytes other than quote and backslash (control characters among them) and a quote
  parses to the String of exactly these bytes.
\<close>

theorem raw_control_characters_accepted:
  "(pos < length s \<and> (of_char (s ! pos) :: nat) < 0x20 \<longrightarrow>
      parse_string_loop s pos str = parse_string_loop s (pos + 1) (str @ [s ! pos]))
   \<and> ((\<forall>c \<in> set body. c \<noteq> CHR 0x22 \<and> c \<noteq> CHR 0x5C) \<longrightarrow>
        parse ([CHR 0x22] @ body @ [CHR 0x22]) = Returns (String body))"
proof -
  have "parse_string_loop s pos str = parse_string_loop s (pos + 1) (str @ [s ! pos])"
    if "pos < length s" "(of_char (s ! pos) :: nat) < 0x20"
  proof -
    from that(2) have "s ! pos \<noteq> CHR 0x22" "s ! pos \<noteq> CHR 0x5C" by auto
    with that(1) show ?thesis by (subst parse_string_loop.simps) simp
  qed
  moreover have "parse ([CHR 0x22] @ body @ [CHR 0x22]) = Returns (String body)"
    if "\<forall>c \<in> set body. c \<noteq> CHR 0x22 \<and> c \<noteq> CHR 0x5C"
    using parse_plain_string [OF that] by simp
  ultimately show ?thesis by blast
qed


theorem raw_control_characters_accepted_witness:
  "parse [CHR 0x22, CHR ''a'', CHR 0x0A, CHR 0x09, CHR ''b'', CHR 0x22]
     = Returns (String [CHR ''a'', CHR 0x0A, CHR 0x09, CHR ''b''])
   \<and> parse_string_loop [CHR 0x22, CHR 0x0A, CHR 0x22] 1 []
       = parse_string_loop [CHR 0x22, CHR 0x0A, CHR 0x22] (1 + 1) ([] @ [CHR 0x0A])"
proof -
  have h1: "1 < length [CHR 0x22, CHR 0x0A, CHR 0x22]" by simp
  have h2: "(of_char ([CHR 0x22, CHR 0x0A, CHR 0x22] ! 1) :: nat) < 0x20" by simp
  have h3: "\<forall>c \<in> set [CHR ''a'', CHR 0x0A, CHR 0x09, CHR ''b'']. c \<noteq> CHR 0x22 \<and> c \<noteq> CHR 0x5C"
    by simp
  have e: "[CHR 0x22, CHR 0x0A, CHR 0x22] ! 1 = CHR 0x0A" by simp
  from raw_control_characters_accepted
    [of 1 "[CHR 0x22, CHR 0x0A, CHR 0x22]" "[]" "[CHR ''a'', CHR 0x0A, CHR 0x09, CHR ''b'']"]
    h1 h2 h3
  have "parse ([CHR 0x22] @ [CHR ''a'', CHR 0x0A, CHR 0x09, CHR ''b''] @ [CHR 0x22])
     = Returns (String [CHR ''a'', CHR 0x0A, CHR 0x09, CHR ''b''])
   \<and> parse_string_loop [CHR 0x22, CHR 0x0A, CHR 0x22] 1 []
       = parse_string_loop [CHR 0x22, CHR 0x0A, CHR 0x22] (1 + 1)
           ([] @ [[CHR 0x22, CHR 0x0A, CHR 0x22] ! 1])"
    by blast
  then show ?thesis by (simp only: e append.simps)
qed

subsection \<open>The array production\<close>





end
